theory Spec2Isabelle
  imports Complex_Main "HOL-Library.Word"
begin

unbundle bit_operations_syntax

section \<open>Data model\<close>

text \<open>
  The script \<^verbatim>\<open>scripts/create_icon.py\<close> computes an RGBA colour for each pixel of a
  128 by 128 grid, lays the pixels out as PNG scanlines and frames them as a PNG stream.
  Python integers are unbounded and are modelled as \<open>int\<close>; byte strings are lists of
  8-bit words; a colour is the 4-tuple the source returns.  Every exception the source can
  raise is a value of \<open>py_error\<close>, and a computation that may raise returns
  \<open>py_error + 'a\<close> with \<open>Inl\<close> for the exception.
\<close>

type_synonym byte = "8 word"
type_synonym bytes = "byte list"
type_synonym pixel = "int \<times> int \<times> int \<times> int"

datatype py_error =
    OverflowError
  | StructError
  | ZlibError
  | OSError

definition width :: int where
  "width = 128"

definition height :: int where
  "height = 128"

section \<open>Pixel generator\<close>

text \<open>
  \<^verbatim>\<open>dist = (dx*dx + dy*dy) ** 0.5\<close> raises an integer to a float power.  Python first
  converts the integer to a double, rounding half to even on 53 bits, and raises
  \<^verbatim>\<open>OverflowError\<close> when the rounded value does not fit, which is the case exactly from
  \<open>2 ^ 1024 - 2 ^ 970\<close> on (the midpoint between the largest double and \<open>2 ^ 1024\<close>).
  The value of the power is modelled by the real square root.  Its only use is the test
  \<^verbatim>\<open>dist <= 48\<close>, whose outcome does not depend on the rounding of double arithmetic:
  the argument is an integer, the root of 2304 is exactly 48 and the root of 2305 exceeds
  48 by more than a hundredth.  The argument is a sum of two squares, so it is never
  negative.
\<close>

definition float_limit :: int where
  "float_limit = 2 ^ 1024 - 2 ^ 970"

definition pow_half :: "int \<Rightarrow> py_error + real" where
  "pow_half n = (if n < float_limit then Inr (sqrt (real_of_int n)) else Inl OverflowError)"

text \<open>
  \<^verbatim>\<open>make_pixel\<close>: the tests are in the order of the source.  The two eye tests sit under
  one \<^verbatim>\<open>if 43 <= y <= 55\<close> in the source and fall through to the mouth test when neither
  eye matches; the antenna-ball test likewise falls through to the head fill.
\<close>

definition make_pixel :: "int \<Rightarrow> int \<Rightarrow> py_error + pixel" where
  "make_pixel x y =
    (let cx = 64; cy = 64;
         dx = x - cx; dy = y - cy
     in case pow_half (dx * dx + dy * dy) of
          Inl e \<Rightarrow> Inl e
        | Inr dist_px \<Rightarrow>
            if dist_px \<le> 48 then
              (let ldx = x - 48; ldy = y - 48;
                   rdx = x - 80; rdy = y - 48;
                   dx2 = x - 64; dy2 = y - 10
               in if 43 \<le> y \<and> y \<le> 55 \<and> ldx * ldx + ldy * ldy \<le> 64
                    then Inr (255, 255, 255, 255)
                  else if 43 \<le> y \<and> y \<le> 55 \<and> rdx * rdx + rdy * rdy \<le> 64
                    then Inr (255, 255, 255, 255)
                  else if 68 \<le> y \<and> y \<le> 72 \<and> 48 \<le> x \<and> x \<le> 80
                    then Inr (255, 255, 255, 255)
                  else if 14 \<le> y \<and> y \<le> 18 \<and> 62 \<le> x \<and> x \<le> 66
                    then Inr (100, 149, 237, 255)
                  else if y < 18 \<and> 58 \<le> x \<and> x \<le> 70 \<and> dx2 * dx2 + dy2 * dy2 \<le> 36
                    then Inr (100, 149, 237, 255)
                  else Inr (65, 105, 225, 255))
            else Inr (0, 0, 0, 0))"

section \<open>Raw scanline buffer\<close>

text \<open>
  \<^verbatim>\<open>struct.pack\<close> with format \<^verbatim>\<open>B\<close> stores one unsigned byte and raises
  \<^verbatim>\<open>struct.error\<close> for a value outside 0..255; with format \<^verbatim>\<open>>I\<close> it stores four
  bytes, most significant first, and raises outside 0..4294967295.  \<open>plus_bytes\<close> is the
  \<^verbatim>\<open>+\<close> of two byte strings whose operands may raise: the left operand is evaluated
  first.
\<close>

definition plus_bytes :: "py_error + bytes \<Rightarrow> py_error + bytes \<Rightarrow> py_error + bytes" where
  "plus_bytes a b =
    (case a of
       Inl e \<Rightarrow> Inl e
     | Inr u \<Rightarrow> (case b of Inl e \<Rightarrow> Inl e | Inr v \<Rightarrow> Inr (u @ v)))"

definition pack_B :: "int \<Rightarrow> py_error + bytes" where
  "pack_B v = (if 0 \<le> v \<and> v \<le> 255 then Inr [word_of_int v] else Inl StructError)"

definition pack_I_be :: "int \<Rightarrow> py_error + bytes" where
  "pack_I_be v =
    (if 0 \<le> v \<and> v \<le> 4294967295
     then Inr [word_of_int (v div 16777216), word_of_int (v div 65536),
               word_of_int (v div 256), word_of_int v]
     else Inl StructError)"

definition pack_BBBB :: "int \<Rightarrow> int \<Rightarrow> int \<Rightarrow> int \<Rightarrow> py_error + bytes" where
  "pack_BBBB r g b a =
    plus_bytes (pack_B r) (plus_bytes (pack_B g) (plus_bytes (pack_B b) (pack_B a)))"

definition pack_IIBBBBB_be ::
  "int \<Rightarrow> int \<Rightarrow> int \<Rightarrow> int \<Rightarrow> int \<Rightarrow> int \<Rightarrow> int \<Rightarrow> py_error + bytes" where
  "pack_IIBBBBB_be w h d c z f i =
    plus_bytes (pack_I_be w) (plus_bytes (pack_I_be h) (plus_bytes (pack_B d)
      (plus_bytes (pack_B c) (plus_bytes (pack_B z) (plus_bytes (pack_B f) (pack_B i))))))"

text \<open>\<^verbatim>\<open>range(n)\<close> and the two nested \<^verbatim>\<open>for\<close> loops that append to \<^verbatim>\<open>raw\<close>.\<close>

definition range_py :: "int \<Rightarrow> int list" where
  "range_py n = [0..n - 1]"

fun pixel_loop :: "int \<Rightarrow> int list \<Rightarrow> bytes \<Rightarrow> py_error + bytes" where
  "pixel_loop y [] acc = Inr acc"
| "pixel_loop y (x # xs) acc =
    (case make_pixel x y of
       Inl e \<Rightarrow> Inl e
     | Inr (r, g, b, a) \<Rightarrow>
         (case pack_BBBB r g b a of
            Inl e \<Rightarrow> Inl e
          | Inr p \<Rightarrow> pixel_loop y xs (acc @ p)))"

fun row_loop :: "int list \<Rightarrow> bytes \<Rightarrow> py_error + bytes" where
  "row_loop [] acc = Inr acc"
| "row_loop (y # ys) acc =
    (case pixel_loop y (range_py width) (acc @ [0]) of
       Inl e \<Rightarrow> Inl e
     | Inr acc' \<Rightarrow> row_loop ys acc')"

definition raw :: "py_error + bytes" where
  "raw = row_loop (range_py height) []"

section \<open>PNG encoder\<close>

text \<open>
  \<^verbatim>\<open>zlib.crc32\<close> belongs to the zlib library, not to the script.  It is the CRC-32 of
  the PNG and zlib specifications: register preset to all ones, each byte fed least
  significant bit first through the reflected polynomial \<open>0xEDB88320\<close>, result
  complemented; Python returns it as an unsigned integer.
\<close>

definition crc_shift :: "32 word \<Rightarrow> 32 word" where
  "crc_shift c = (if bit c 0 then drop_bit 1 c XOR 0xEDB88320 else drop_bit 1 c)"

definition crc_update :: "32 word \<Rightarrow> byte \<Rightarrow> 32 word" where
  "crc_update c b = (crc_shift ^^ 8) (c XOR ucast b)"

definition zlib_crc32 :: "bytes \<Rightarrow> int" where
  "zlib_crc32 bs = uint (foldl crc_update 0xFFFFFFFF bs XOR 0xFFFFFFFF)"

definition chunk :: "bytes \<Rightarrow> bytes \<Rightarrow> py_error + bytes" where
  "chunk ctype data =
    (let c = ctype @ data
     in case pack_I_be (int (length data)) of
          Inl e \<Rightarrow> Inl e
        | Inr len_field \<Rightarrow>
            (case pack_I_be (zlib_crc32 c AND 0xffffffff) of
               Inl e \<Rightarrow> Inl e
             | Inr crc_field \<Rightarrow> Inr (len_field @ c @ crc_field)))"

text \<open>A bytes literal of ASCII characters, such as \<^verbatim>\<open>b'IHDR'\<close>.\<close>

definition bytes_of :: "string \<Rightarrow> bytes" where
  "bytes_of s = map (\<lambda>c. of_nat (of_char c)) s"


definition ihdr :: "py_error + bytes" where
  "ihdr = pack_IIBBBBB_be width height 8 6 0 0 0"


section \<open>Writing the file\<close>

text \<open>
  \<^verbatim>\<open>os.path.dirname\<close> and \<^verbatim>\<open>os.path.join\<close> are the string functions of Python's
  \<^verbatim>\<open>posixpath\<close>: \<open>dirname\<close> cuts the path after its last slash and strips the trailing
  slashes of the result unless it consists of slashes only; \<open>join\<close> appends each component
  after a slash, restarting at a component that begins with a slash.
\<close>

definition sep :: char where
  "sep = CHR ''/''"

definition rstrip_sep :: "string \<Rightarrow> string" where
  "rstrip_sep s = rev (dropWhile (\<lambda>c. c = sep) (rev s))"

definition dirname :: "string \<Rightarrow> string" where
  "dirname p =
    (let head = rev (dropWhile (\<lambda>c. c \<noteq> sep) (rev p))
     in if head \<noteq> [] \<and> head \<noteq> replicate (length head) sep then rstrip_sep head else head)"

fun join_path :: "string \<Rightarrow> string list \<Rightarrow> string" where
  "join_path path [] = path"
| "join_path path (b # bs) =
    join_path
      (if take 1 b = [sep] then b
       else if path = [] \<or> take 1 (rev path) = [sep] then path @ b
       else path @ [sep] @ b) bs"

definition outpath :: "string \<Rightarrow> string" where
  "outpath file = join_path (dirname file) [''..'', ''media'', ''icon.png'']"







text \<open>The big-endian value of a byte string, used to read the fields of a chunk back.\<close>

definition be_value :: "bytes \<Rightarrow> int" where
  "be_value bs = foldl (\<lambda>acc b. acc * 256 + uint b) 0 bs"

section \<open>The scanline layout in the words of the specification\<close>

text \<open>
  The buffer as the specification describes it, to be compared with the loops above: a
  pixel is its four bytes R, G, B, A; a scanline is the filter byte 0 followed by the
  pixels of the row for \<open>x\<close> from 0 to 127; the buffer is the scanlines for \<open>y\<close> from 0 to
  127.
\<close>

definition spec_pixel_bytes :: "int \<Rightarrow> int \<Rightarrow> bytes" where
  "spec_pixel_bytes x y =
    (case make_pixel x y of
       Inl e \<Rightarrow> []
     | Inr (r, g, b, a) \<Rightarrow> [word_of_int r, word_of_int g, word_of_int b, word_of_int a])"

definition spec_scanline :: "int \<Rightarrow> bytes" where
  "spec_scanline y = 0 # concat (map (\<lambda>x. spec_pixel_bytes x y) [0..127])"

definition spec_raw :: bytes where
  "spec_raw = concat (map spec_scanline [0..127])"

section \<open>The output path in the words of the specification\<close>


section \<open>Properties of the pixel generator\<close>

lemma sqrt_le_48_iff: "sqrt (real_of_int n) \<le> 48 \<longleftrightarrow> n \<le> 2304"
proof -
  have "sqrt (real_of_int 2304) = 48"
    by (rule real_sqrt_unique) simp_all
  then have "sqrt (real_of_int n) \<le> 48 \<longleftrightarrow> sqrt (real_of_int n) \<le> sqrt (real_of_int 2304)"
    by simp
  also have "\<dots> \<longleftrightarrow> n \<le> 2304"
    by (simp only: real_sqrt_le_iff of_int_le_iff)
  finally show ?thesis .
qed

lemma pow_half_case:
  "(case pow_half n of Inl e \<Rightarrow> Inl e | Inr d \<Rightarrow> if d \<le> 48 then A else B) =
   (if n < float_limit then (if n \<le> 2304 then A else B) else Inl OverflowError)"
  by (cases "n < float_limit") (simp_all add: pow_half_def sqrt_le_48_iff)

text \<open>The same function with the float comparison decided on the integers; it is the
  equation used to run \<open>make_pixel\<close>.\<close>

lemma make_pixel_int [code]:
  "make_pixel x y =
    (if (x - 64) * (x - 64) + (y - 64) * (y - 64) < float_limit then
       if (x - 64) * (x - 64) + (y - 64) * (y - 64) \<le> 2304 then
         if 43 \<le> y \<and> y \<le> 55 \<and> (x - 48) * (x - 48) + (y - 48) * (y - 48) \<le> 64
           then Inr (255, 255, 255, 255)
         else if 43 \<le> y \<and> y \<le> 55 \<and> (x - 80) * (x - 80) + (y - 48) * (y - 48) \<le> 64
           then Inr (255, 255, 255, 255)
         else if 68 \<le> y \<and> y \<le> 72 \<and> 48 \<le> x \<and> x \<le> 80 then Inr (255, 255, 255, 255)
         else if 14 \<le> y \<and> y \<le> 18 \<and> 62 \<le> x \<and> x \<le> 66 then Inr (100, 149, 237, 255)
         else if y < 18 \<and> 58 \<le> x \<and> x \<le> 70 \<and> (x - 64) * (x - 64) + (y - 10) * (y - 10) \<le> 36
           then Inr (100, 149, 237, 255)
         else Inr (65, 105, 225, 255)
       else Inr (0, 0, 0, 0)
     else Inl OverflowError)"
  by (simp only: make_pixel_def Let_def pow_half_case)

text \<open>
  C1.  The claim is that \<open>make_pixel 64 10\<close> is the antenna colour and \<open>make_pixel 0 0\<close> is
  transparent.  The point (64, 10) lies 54 pixels above the centre of the head circle of
  radius 48, and the antenna tests are only reached inside that circle, so the source
  returns the transparent pixel at (64, 10) as well as at (0, 0).
\<close>

theorem make_pixel_antenna_centre_transparent:
  "make_pixel 64 10 = Inr (0, 0, 0, 0) \<and> make_pixel 0 0 = Inr (0, 0, 0, 0)"
  by (simp add: make_pixel_int float_limit_def)

text \<open>
  Inside the head circle the antenna-ball test can hold only at (64, 16), and there the
  antenna-stem test has already returned: the ball test of the source never decides a
  pixel.
\<close>

lemma antenna_ball_inside_head:
  assumes "(x - 64) * (x - 64) + (y - 64) * (y - 64) \<le> (2304::int)"
    and "(x - 64) * (x - 64) + (y - 10) * (y - 10) \<le> 36"
  shows "x = 64 \<and> y = 16"
proof -
  have sq: "0 \<le> (x - 64) * (x - 64)" by simp
  have a: "(y - 64) * (y - 64) \<le> 2304" using assms(1) sq by linarith
  have b: "(y - 10) * (y - 10) \<le> 36" using assms(2) sq by linarith
  have lo: "16 \<le> y"
  proof (rule ccontr)
    assume "\<not> 16 \<le> y"
    then have "49 \<le> 64 - y" by simp
    then have "49 * 49 \<le> (64 - y) * (64 - y)" by (intro mult_mono) simp_all
    moreover have "(64 - y) * (64 - y) = (y - 64) * (y - 64)" by (simp add: algebra_simps)
    ultimately show False using a by simp
  qed
  have hi: "y \<le> 16"
  proof (rule ccontr)
    assume "\<not> y \<le> 16"
    then have "7 \<le> y - 10" by simp
    then have "7 * 7 \<le> (y - 10) * (y - 10)" by (intro mult_mono) simp_all
    then show False using b by simp
  qed
  from lo hi have y: "y = 16" by simp
  with assms(1) have "(x - 64) * (x - 64) \<le> 0" by simp
  with sq have "(x - 64) * (x - 64) = 0" by linarith
  then have "x = 64" by simp
  with y show ?thesis by simp
qed

lemma square_le_4096:
  assumes "0 \<le> (x::int)" "x < 128"
  shows "(x - 64) * (x - 64) \<le> 4096"
proof -
  have "\<bar>x - 64\<bar> \<le> 64" using assms by simp
  then have "\<bar>x - 64\<bar> * \<bar>x - 64\<bar> \<le> 64 * 64"
    by (intro mult_mono) simp_all
  then show ?thesis by (simp add: abs_mult_self_eq)
qed

lemma grid_below_float_limit:
  assumes "0 \<le> x" "x < 128" "0 \<le> y" "y < 128"
  shows "(x - 64) * (x - 64) + (y - 64) * (y - 64) < float_limit"
proof -
  have "(x - 64) * (x - 64) + (y - 64) * (y - 64) \<le> 8192"
    using square_le_4096 [OF assms(1,2)] square_le_4096 [OF assms(3,4)] by simp
  also have "\<dots> < float_limit" by (simp add: float_limit_def)
  finally show ?thesis .
qed

lemma make_pixel_colours:
  assumes "(x - 64) * (x - 64) + (y - 64) * (y - 64) < float_limit"
  shows "make_pixel x y = Inr (0, 0, 0, 0) \<or> make_pixel x y = Inr (255, 255, 255, 255) \<or>
         make_pixel x y = Inr (100, 149, 237, 255) \<or> make_pixel x y = Inr (65, 105, 225, 255)"
  using assms by (simp add: make_pixel_int)

lemma make_pixel_overflow:
  assumes "float_limit \<le> (x - 64) * (x - 64) + (y - 64) * (y - 64)"
  shows "make_pixel x y = Inl OverflowError"
  using assms by (simp add: make_pixel_int)

text \<open>
  C3, as stated: every integer pair outside the head circle gets alpha 0.  It fails where
  the squared distance no longer converts to a double: there the source raises
  \<^verbatim>\<open>OverflowError\<close> and returns no pixel, for instance at \<open>x = 2 ^ 512 + 64\<close>, \<open>y = 64\<close>.
\<close>

theorem make_pixel_outside_head_counterexample:
  "(48::int) ^ 2 < ((2 ^ 512 + 64) - 64) ^ 2 + (64 - 64) ^ 2 \<and>
   make_pixel (2 ^ 512 + 64) 64 = Inl OverflowError"
  by (simp add: make_pixel_int float_limit_def)

text \<open>
  C3, amended: every integer pair whose squared distance from (64, 64) exceeds \<open>48\<^sup>2\<close> and
  is below the conversion limit \<open>2 ^ 1024 - 2 ^ 970\<close> gets the fully transparent pixel
  (0, 0, 0, 0).  All coordinates of the 128 by 128 grid are below the limit.
\<close>

theorem make_pixel_outside_head:
  assumes "48 ^ 2 < (x - 64) ^ 2 + (y - 64) ^ 2"
    and "(x - 64) ^ 2 + (y - 64) ^ 2 < float_limit"
  shows "make_pixel x y = Inr (0, 0, 0, 0)"
  using assms by (simp add: make_pixel_int power2_eq_square)

theorem make_pixel_outside_head_witness:
  "(48::int) ^ 2 < (0 - 64) ^ 2 + (0 - 64) ^ 2 \<and> ((0::int) - 64) ^ 2 + (0 - 64) ^ 2 < float_limit \<and>
   make_pixel 0 0 = Inr (0, 0, 0, 0)"
proof -
  have a: "(48::int) ^ 2 < (0 - 64) ^ 2 + (0 - 64) ^ 2" by simp
  have b: "((0::int) - 64) ^ 2 + (0 - 64) ^ 2 < float_limit" by (simp add: float_limit_def)
  show ?thesis using a b make_pixel_outside_head [OF a b] by simp
qed

text \<open>
  C10, as stated: \<open>make_pixel\<close> is defined without error for every integer pair.  It is not:
  at \<open>x = 64\<close>, \<open>y = 64 - 2 ^ 512\<close> the squared distance is \<open>2 ^ 1024\<close>, which does not
  convert to a double, and the source raises \<^verbatim>\<open>OverflowError\<close>.
\<close>

theorem make_pixel_total_counterexample:
  "make_pixel 64 (64 - 2 ^ 512) = Inl OverflowError"
  by (simp add: make_pixel_int float_limit_def)

text \<open>
  C10, amended: for every integer pair whose squared distance from (64, 64) is below the
  conversion limit \<open>2 ^ 1024 - 2 ^ 970\<close>, \<open>make_pixel\<close> returns one of the four tuples
  (0, 0, 0, 0), (255, 255, 255, 255), (100, 149, 237, 255) and (65, 105, 225, 255); its
  alpha component is 0 or 255.
\<close>

theorem make_pixel_four_colours:
  assumes "(x - 64) ^ 2 + (y - 64) ^ 2 < float_limit"
  shows "\<exists>r g b a. make_pixel x y = Inr (r, g, b, a) \<and>
           (r, g, b, a) \<in> {(0, 0, 0, 0), (255, 255, 255, 255), (100, 149, 237, 255), (65, 105, 225, 255)} \<and>
           (a = 0 \<or> a = 255)"
  using make_pixel_colours [of x y] assms by (auto simp add: power2_eq_square)

theorem make_pixel_four_colours_witness:
  "((64::int) - 64) ^ 2 + (16 - 64) ^ 2 < float_limit \<and>
   (\<exists>r g b a. make_pixel 64 16 = Inr (r, g, b, a) \<and>
           (r, g, b, a) \<in> {(0, 0, 0, 0), (255, 255, 255, 255), (100, 149, 237, 255), (65, 105, 225, 255)} \<and>
           (a = 0 \<or> a = 255))"
proof -
  have h: "((64::int) - 64) ^ 2 + (16 - 64) ^ 2 < float_limit"
    by (simp add: float_limit_def)
  show ?thesis using h make_pixel_four_colours [OF h] by blast
qed

text \<open>Each of the four colours occurs on the grid.\<close>

lemma make_pixel_colours_attained:
  "make_pixel 0 0 = Inr (0, 0, 0, 0)" "make_pixel 48 48 = Inr (255, 255, 255, 255)"
  "make_pixel 64 16 = Inr (100, 149, 237, 255)" "make_pixel 64 64 = Inr (65, 105, 225, 255)"
  by (simp_all add: make_pixel_int float_limit_def)

section \<open>Properties of the byte packing and the checksum\<close>

lemma zlib_crc32_and: "zlib_crc32 c AND 0xffffffff = zlib_crc32 c"
proof -
  have "(0xffffffff::int) = mask 32" by (simp add: mask_eq_exp_minus_1)
  then have "zlib_crc32 c AND 0xffffffff = take_bit 32 (zlib_crc32 c)"
    by (simp only: take_bit_eq_mask)
  also have "\<dots> = zlib_crc32 c"
    unfolding zlib_crc32_def by (rule take_bit_int_eq_self) (use uint_lt2p [where 'a=32] in simp_all)
  finally show ?thesis .
qed

lemma zlib_crc32_range: "0 \<le> zlib_crc32 c \<and> zlib_crc32 c \<le> 4294967295"
proof -
  have "zlib_crc32 c < 2 ^ 32"
    unfolding zlib_crc32_def using uint_lt2p [where 'a=32] by simp
  then show ?thesis by (simp add: zlib_crc32_def)
qed

lemma radix_256:
  fixes v a b c r0 r1 r2 :: int
  assumes "v = a * 256 + r0" "a = b * 256 + r1" "b = c * 256 + r2"
  shows "((c * 256 + r2) * 256 + r1) * 256 + r0 = v"
  by (simp only: assms)

lemma be_split:
  assumes "0 \<le> (v::int)" "v \<le> 4294967295"
  shows "((v div 16777216 mod 256 * 256 + v div 65536 mod 256) * 256 + v div 256 mod 256) * 256
          + v mod 256 = v"
proof -
  have d2: "v div 65536 = v div 256 div 256"
    using zdiv_zmult2_eq [of 256 v 256] by simp
  have d3: "v div 16777216 = v div 256 div 256 div 256"
    using zdiv_zmult2_eq [of 256 v 65536] by (simp add: d2)
  have "v div 16777216 \<le> 4294967295 div 16777216"
    by (rule zdiv_mono1) (use assms in simp_all)
  then have "v div 16777216 < 256" by simp
  moreover have "0 \<le> v div 16777216"
    by (rule pos_imp_zdiv_nonneg_iff [THEN iffD2]) (use assms in simp_all)
  ultimately have small: "v div 16777216 mod 256 = v div 16777216"
    by (rule_tac mod_pos_pos_trivial)
  have e1: "v = v div 256 * 256 + v mod 256"
    by (rule div_mult_mod_eq [symmetric])
  have e2: "v div 256 = v div 256 div 256 * 256 + v div 256 mod 256"
    by (rule div_mult_mod_eq [symmetric])
  have e3: "v div 256 div 256 = v div 256 div 256 div 256 * 256 + v div 256 div 256 mod 256"
    by (rule div_mult_mod_eq [symmetric])
  have "((v div 256 div 256 div 256 * 256 + v div 256 div 256 mod 256) * 256 + v div 256 mod 256) * 256
          + v mod 256 = v"
    by (rule radix_256 [OF e1 e2 e3])
  moreover have "v div 256 div 256 div 256 mod 256 = v div 256 div 256 div 256"
    using small by (simp only: d3)
  ultimately show ?thesis
    by (simp only: d2 d3)
qed

lemma uint_byte_of_int: "uint (word_of_int k :: byte) = k mod 256"
  by (simp add: uint_word_of_int)

lemma be_value_4:
  "be_value [a, b, c, d] = ((uint a * 256 + uint b) * 256 + uint c) * 256 + uint d"
  by (simp add: be_value_def)

lemma pack_I_be_value:
  assumes "0 \<le> v" "v \<le> 4294967295"
  shows "\<exists>bs. pack_I_be v = Inr bs \<and> length bs = 4 \<and> be_value bs = v"
proof -
  let ?bs = "[word_of_int (v div 16777216), word_of_int (v div 65536),
              word_of_int (v div 256), word_of_int v] :: bytes"
  have "pack_I_be v = Inr ?bs"
    using assms by (simp add: pack_I_be_def)
  moreover have "length ?bs = 4" by simp
  moreover have "be_value ?bs = v"
    by (simp only: be_value_4 uint_byte_of_int be_split [OF assms])
  ultimately show ?thesis by blast
qed


lemma funpow_8: "(f ^^ 8) x = f (f (f (f (f (f (f (f x)))))))"
  by (simp add: eval_nat_numeral)

lemma crc_update_unfold:
  "crc_update c b =
     crc_shift (crc_shift (crc_shift (crc_shift (crc_shift (crc_shift (crc_shift (crc_shift
       (c XOR ucast b))))))))"
  by (simp add: crc_update_def funpow_8)

lemma bytes_of_tags:
  "bytes_of ''IHDR'' = [0x49, 0x48, 0x44, 0x52]"
  "bytes_of ''IDAT'' = [0x49, 0x44, 0x41, 0x54]"
  "bytes_of ''IEND'' = [0x49, 0x45, 0x4E, 0x44]"
  "bytes_of ''PNG'' = [0x50, 0x4E, 0x47]"
  by (simp_all add: bytes_of_def)

lemma crc32_IEND: "zlib_crc32 [0x49, 0x45, 0x4E, 0x44] = 0xAE426082"
  by (simp add: zlib_crc32_def crc_update_unfold crc_shift_def)

section \<open>Properties of the PNG encoder\<close>

lemma chunk_fields:
  assumes "length data \<le> 4294967295"
  shows "\<exists>len_field crc_field.
           chunk ctype data = Inr (len_field @ ctype @ data @ crc_field) \<and>
           length len_field = 4 \<and> be_value len_field = int (length data) \<and>
           length crc_field = 4 \<and> be_value crc_field = zlib_crc32 (ctype @ data)"
proof -
  have "0 \<le> int (length data)" "int (length data) \<le> 4294967295"
    using assms by simp_all
  then obtain l where l: "pack_I_be (int (length data)) = Inr l" "length l = 4"
    "be_value l = int (length data)"
    using pack_I_be_value by blast
  obtain k where k: "pack_I_be (zlib_crc32 (ctype @ data)) = Inr k" "length k = 4"
    "be_value k = zlib_crc32 (ctype @ data)"
    using pack_I_be_value zlib_crc32_range by blast
  have "chunk ctype data = Inr (l @ ctype @ data @ k)"
    by (simp add: chunk_def zlib_crc32_and l k)
  with l k show ?thesis by blast
qed




text \<open>
  C4, as stated: for every type tag and every payload, \<open>chunk\<close> is the length field, the
  tag, the payload and the checksum field.  A payload of \<open>2 ^ 32\<close> bytes has no 4-byte
  length: \<^verbatim>\<open>struct.pack('>I', len(data))\<close> raises \<^verbatim>\<open>struct.error\<close> and \<open>chunk\<close> returns
  nothing.
\<close>

theorem chunk_layout_counterexample:
  "chunk (bytes_of ''IDAT'') (replicate 4294967296 0) = Inl StructError"
proof -
  have "pack_I_be (int (length (replicate 4294967296 (0::byte)))) = Inl StructError"
    by (simp only: length_replicate) (simp add: pack_I_be_def)
  then show ?thesis
    by (simp only: chunk_def Let_def sum.case)
qed

text \<open>
  C4, amended: for every type tag \<open>ctype\<close> and every payload \<open>data\<close> of at most
  \<open>2 ^ 32 - 1\<close> bytes, \<open>chunk ctype data\<close> is the concatenation of a 4-byte field whose
  big-endian value is the length of \<open>data\<close>, of \<open>ctype\<close>, of \<open>data\<close>, and of a 4-byte field
  whose big-endian value is the CRC-32 of \<open>ctype @ data\<close>.
\<close>

theorem chunk_layout:
  assumes "length data \<le> 4294967295"
  shows "\<exists>len_field crc_field.
           chunk ctype data = Inr (len_field @ ctype @ data @ crc_field) \<and>
           length len_field = 4 \<and> be_value len_field = int (length data) \<and>
           length crc_field = 4 \<and> be_value crc_field = zlib_crc32 (ctype @ data)"
  using chunk_fields [OF assms] .

theorem chunk_layout_witness:
  "length ([] :: bytes) \<le> 4294967295 \<and>
   (\<exists>len_field crc_field.
      chunk (bytes_of ''IEND'') [] = Inr (len_field @ bytes_of ''IEND'' @ [] @ crc_field) \<and>
      length len_field = 4 \<and> be_value len_field = int (length ([] :: bytes)) \<and>
      length crc_field = 4 \<and> be_value crc_field = zlib_crc32 (bytes_of ''IEND'' @ []))"
proof -
  have h: "length ([] :: bytes) \<le> 4294967295" by simp
  show ?thesis using h chunk_layout [OF h, of "bytes_of ''IEND''"] by blast
qed

text \<open>
  C6.  The IHDR payload is the 13 bytes that encode, most significant byte first, width 128
  and height 128, then bit depth 8, colour type 6 (RGBA) and compression, filter and
  interlace method 0.
\<close>

theorem ihdr_payload:
  "ihdr = Inr [0, 0, 0, 128, 0, 0, 0, 128, 8, 6, 0, 0, 0] \<and>
   length [0, 0, 0, 128, 0, 0, 0, 128, 8, 6, 0, 0, 0 :: byte] = 13 \<and>
   be_value [0, 0, 0, 128] = width \<and> be_value [0, 0, 0, 128] = height"
  by (simp add: ihdr_def pack_IIBBBBB_be_def pack_I_be_def pack_B_def plus_bytes_def
      width_def height_def be_value_def)

text \<open>
  C7.  The IEND chunk is a constant of twelve bytes: a length field of value 0, the tag,
  no payload, and the checksum field \<open>AE 42 60 82\<close>, the CRC-32 of the four tag bytes.
  Nothing of the image enters it.
\<close>

theorem iend_chunk:
  "chunk (bytes_of ''IEND'') [] = Inr ([0, 0, 0, 0] @ bytes_of ''IEND'' @ [0xAE, 0x42, 0x60, 0x82]) \<and>
   be_value [0, 0, 0, 0] = 0 \<and>
   be_value [0xAE, 0x42, 0x60, 0x82] = 0xAE426082 \<and>
   zlib_crc32 (bytes_of ''IEND'') = 0xAE426082"
  by (simp add: chunk_def bytes_of_tags crc32_IEND pack_I_be_def be_value_def)

section \<open>Properties of the raw scanline buffer\<close>

lemma pixel_step_at:
  assumes "make_pixel x y = Inr (r, g, b, a)"
    and "0 \<le> r" "r \<le> 255" "0 \<le> g" "g \<le> 255" "0 \<le> b" "b \<le> 255" "0 \<le> a" "a \<le> 255"
  shows "\<exists>r g b a. make_pixel x y = Inr (r, g, b, a) \<and>
           pack_BBBB r g b a = Inr [word_of_int r, word_of_int g, word_of_int b, word_of_int a] \<and>
           spec_pixel_bytes x y = [word_of_int r, word_of_int g, word_of_int b, word_of_int a]"
proof -
  have "make_pixel x y = Inr (r, g, b, a) \<and>
        pack_BBBB r g b a = Inr [word_of_int r, word_of_int g, word_of_int b, word_of_int a] \<and>
        spec_pixel_bytes x y = [word_of_int r, word_of_int g, word_of_int b, word_of_int a]"
    using assms by (simp add: spec_pixel_bytes_def pack_BBBB_def pack_B_def plus_bytes_def)
  then show ?thesis by blast
qed

lemma pixel_step:
  assumes "0 \<le> x" "x < 128" "0 \<le> y" "y < 128"
  shows "\<exists>r g b a. make_pixel x y = Inr (r, g, b, a) \<and>
           pack_BBBB r g b a = Inr [word_of_int r, word_of_int g, word_of_int b, word_of_int a] \<and>
           spec_pixel_bytes x y = [word_of_int r, word_of_int g, word_of_int b, word_of_int a]"
proof -
  from make_pixel_colours [OF grid_below_float_limit [OF assms]]
  consider (transparent) "make_pixel x y = Inr (0, 0, 0, 0)"
    | (white) "make_pixel x y = Inr (255, 255, 255, 255)"
    | (antenna) "make_pixel x y = Inr (100, 149, 237, 255)"
    | (fill) "make_pixel x y = Inr (65, 105, 225, 255)"
    by blast
  then show ?thesis
  proof cases
    case transparent
    from pixel_step_at [OF this] show ?thesis by simp
  next
    case white
    from pixel_step_at [OF this] show ?thesis by simp
  next
    case antenna
    from pixel_step_at [OF this] show ?thesis by simp
  next
    case fill
    from pixel_step_at [OF this] show ?thesis by simp
  qed
qed

lemma length_spec_pixel_bytes:
  assumes "0 \<le> x" "x < 128" "0 \<le> y" "y < 128"
  shows "length (spec_pixel_bytes x y) = 4"
  using pixel_step [OF assms] by auto

lemma pixel_loop_eq:
  assumes "0 \<le> y" "y < 128" "\<forall>x\<in>set xs. 0 \<le> x \<and> x < 128"
  shows "pixel_loop y xs acc = Inr (acc @ concat (map (\<lambda>x. spec_pixel_bytes x y) xs))"
  using assms(3)
proof (induction xs arbitrary: acc)
  case Nil
  then show ?case by simp
next
  case (Cons x xs)
  then have "0 \<le> x" "x < 128" by simp_all
  from pixel_step [OF this assms(1,2)] obtain r g b a where
    "make_pixel x y = Inr (r, g, b, a)"
    "pack_BBBB r g b a = Inr (spec_pixel_bytes x y)"
    by auto
  moreover have "pixel_loop y xs (acc @ spec_pixel_bytes x y) =
      Inr ((acc @ spec_pixel_bytes x y) @ concat (map (\<lambda>x. spec_pixel_bytes x y) xs))"
    using Cons by simp
  ultimately show ?case by simp
qed

lemma range_py_128: "range_py 128 = [0..127]"
  by (simp add: range_py_def)

lemma set_upto_grid: "\<forall>x\<in>set [0..127::int]. 0 \<le> x \<and> x < 128"
  by simp

lemma row_loop_eq:
  assumes "\<forall>y\<in>set ys. 0 \<le> y \<and> y < 128"
  shows "row_loop ys acc = Inr (acc @ concat (map spec_scanline ys))"
  using assms
proof (induction ys arbitrary: acc)
  case Nil
  then show ?case by simp
next
  case (Cons y ys)
  then have y: "0 \<le> y" "y < 128" by simp_all
  have "pixel_loop y (range_py width) (acc @ [0]) = Inr (acc @ spec_scanline y)"
    unfolding width_def range_py_128
    by (simp only: pixel_loop_eq [OF y set_upto_grid]) (simp add: spec_scanline_def)
  moreover have "row_loop ys (acc @ spec_scanline y) =
      Inr ((acc @ spec_scanline y) @ concat (map spec_scanline ys))"
    using Cons by simp
  ultimately show ?case by simp
qed

lemma raw_eq: "raw = Inr spec_raw"
  unfolding raw_def height_def range_py_128 spec_raw_def
  by (simp only: row_loop_eq [OF set_upto_grid] append_Nil)

lemma length_concat_uniform:
  assumes "\<forall>b\<in>set bss. length b = k"
  shows "length (concat bss) = length bss * k"
  using assms by (induction bss) simp_all

lemma nth_concat_uniform:
  assumes "\<forall>b\<in>set bss. length b = k" "i < length bss" "j < k"
  shows "concat bss ! (i * k + j) = bss ! i ! j"
  using assms
proof (induction bss arbitrary: i)
  case Nil
  then show ?case by simp
next
  case (Cons b bss)
  show ?case
  proof (cases i)
    case 0
    with Cons.prems show ?thesis by (simp add: nth_append)
  next
    case (Suc i')
    with Cons.prems have "concat bss ! (i' * k + j) = bss ! i' ! j"
      by (intro Cons.IH) simp_all
    with Suc Cons.prems show ?thesis by (simp add: nth_append)
  qed
qed

lemma length_upto_grid: "length [0..127::int] = 128"
  by simp

lemma nth_upto_grid: "k < 128 \<Longrightarrow> [0..127::int] ! k = int k"
  by (simp add: nth_upto)

lemma length_spec_scanline:
  assumes "0 \<le> y" "y < 128"
  shows "length (spec_scanline y) = 513"
proof -
  have "\<forall>b\<in>set (map (\<lambda>x. spec_pixel_bytes x y) [0..127]). length b = 4"
    using length_spec_pixel_bytes assms by auto
  from length_concat_uniform [OF this] show ?thesis
    by (simp add: spec_scanline_def)
qed

lemma scanlines_uniform: "\<forall>b\<in>set (map spec_scanline [0..127]). length b = 513"
  using length_spec_scanline by auto

lemma length_spec_raw: "length spec_raw = 65664"
  unfolding spec_raw_def using length_concat_uniform [OF scanlines_uniform] by simp

lemma spec_raw_nth:
  assumes "y < 128" "j < 513"
  shows "spec_raw ! (y * 513 + j) = spec_scanline (int y) ! j"
proof -
  have "concat (map spec_scanline [0..127]) ! (y * 513 + j) = map spec_scanline [0..127] ! y ! j"
    by (rule nth_concat_uniform [OF scanlines_uniform]) (use assms in simp_all)
  then show ?thesis
    using assms by (simp add: spec_raw_def nth_upto_grid)
qed

lemma spec_scanline_nth:
  assumes "y < 128" "x < 128" "c < 4"
  shows "spec_scanline (int y) ! (1 + (x * 4 + c)) = spec_pixel_bytes (int x) (int y) ! c"
proof -
  have u: "\<forall>b\<in>set (map (\<lambda>x. spec_pixel_bytes x (int y)) [0..127]). length b = 4"
    using length_spec_pixel_bytes assms(1) by auto
  have "concat (map (\<lambda>x. spec_pixel_bytes x (int y)) [0..127]) ! (x * 4 + c) =
        map (\<lambda>x. spec_pixel_bytes x (int y)) [0..127] ! x ! c"
    by (rule nth_concat_uniform [OF u]) (use assms in simp_all)
  then show ?thesis
    using assms by (simp add: spec_scanline_def nth_upto_grid)
qed

lemma spec_raw_filter_byte:
  assumes "y < 128"
  shows "spec_raw ! (513 * y) = 0"
proof -
  have "spec_raw ! (y * 513 + 0) = spec_scanline (int y) ! 0"
    by (rule spec_raw_nth) (use assms in simp_all)
  then show ?thesis by (simp add: spec_scanline_def mult.commute)
qed

lemma spec_raw_channel:
  assumes "y < 128" "x < 128" "c < 4"
  shows "spec_raw ! (513 * y + 1 + 4 * x + c) = spec_pixel_bytes (int x) (int y) ! c"
proof -
  have "spec_raw ! (y * 513 + (1 + (x * 4 + c))) = spec_scanline (int y) ! (1 + (x * 4 + c))"
    by (rule spec_raw_nth) (use assms in simp_all)
  also have "\<dots> = spec_pixel_bytes (int x) (int y) ! c"
    by (rule spec_scanline_nth [OF assms])
  finally show ?thesis by (simp add: mult.commute add.assoc)
qed

lemma spec_raw_pixel:
  assumes "y < 128" "x < 128"
  shows "\<exists>r g b a. make_pixel (int x) (int y) = Inr (r, g, b, a) \<and>
           spec_raw ! (513 * y + 1 + 4 * x) = word_of_int r \<and>
           spec_raw ! (513 * y + 1 + 4 * x + 1) = word_of_int g \<and>
           spec_raw ! (513 * y + 1 + 4 * x + 2) = word_of_int b \<and>
           spec_raw ! (513 * y + 1 + 4 * x + 3) = word_of_int a"
proof -
  have "0 \<le> int x" "int x < 128" "0 \<le> int y" "int y < 128"
    using assms by simp_all
  from pixel_step [OF this] obtain r g b a where
    p: "make_pixel (int x) (int y) = Inr (r, g, b, a)"
    and s: "spec_pixel_bytes (int x) (int y) =
            [word_of_int r, word_of_int g, word_of_int b, word_of_int a]"
    by blast
  have "spec_raw ! (513 * y + 1 + 4 * x + 0) = word_of_int r"
    by (simp only: spec_raw_channel [OF assms] s) simp
  moreover have "spec_raw ! (513 * y + 1 + 4 * x + 1) = word_of_int g"
    by (simp only: spec_raw_channel [OF assms] s) simp
  moreover have "spec_raw ! (513 * y + 1 + 4 * x + 2) = word_of_int b"
    by (simp only: spec_raw_channel [OF assms] s) simp
  moreover have "spec_raw ! (513 * y + 1 + 4 * x + 3) = word_of_int a"
    by (simp only: spec_raw_channel [OF assms] s) simp
  ultimately show ?thesis using p by simp
qed

text \<open>
  C8.  The loops succeed and build a buffer of \<open>128 * (1 + 128 * 4) = 65664\<close> bytes.  For
  every row \<open>y\<close> below 128 the byte at offset \<open>513 * y\<close> is the filter byte 0, and for every
  \<open>x\<close> below 128 the four bytes from offset \<open>513 * y + 1 + 4 * x\<close> on are the R, G, B and A
  components of \<open>make_pixel x y\<close>: rows in order of \<open>y\<close>, pixels in order of \<open>x\<close>.
\<close>

theorem raw_layout:
  "\<exists>bs. raw = Inr bs \<and> length bs = 128 * (1 + 128 * 4) \<and> length bs = 65664 \<and>
     (\<forall>y<128. bs ! (513 * y) = 0 \<and>
        (\<forall>x<128. \<exists>r g b a. make_pixel (int x) (int y) = Inr (r, g, b, a) \<and>
           bs ! (513 * y + 1 + 4 * x) = word_of_int r \<and>
           bs ! (513 * y + 1 + 4 * x + 1) = word_of_int g \<and>
           bs ! (513 * y + 1 + 4 * x + 2) = word_of_int b \<and>
           bs ! (513 * y + 1 + 4 * x + 3) = word_of_int a))"
proof -
  have rows: "\<forall>y<128. spec_raw ! (513 * y) = 0 \<and>
        (\<forall>x<128. \<exists>r g b a. make_pixel (int x) (int y) = Inr (r, g, b, a) \<and>
           spec_raw ! (513 * y + 1 + 4 * x) = word_of_int r \<and>
           spec_raw ! (513 * y + 1 + 4 * x + 1) = word_of_int g \<and>
           spec_raw ! (513 * y + 1 + 4 * x + 2) = word_of_int b \<and>
           spec_raw ! (513 * y + 1 + 4 * x + 3) = word_of_int a)"
    by (intro allI impI conjI spec_raw_filter_byte spec_raw_pixel)
  have "length spec_raw = 128 * (1 + 128 * 4)"
    by (simp add: length_spec_raw)
  with raw_eq length_spec_raw rows show ?thesis
    by (intro exI [of _ spec_raw] conjI)
qed

theorem raw_layout_witness:
  "\<exists>bs. raw = Inr bs \<and> length bs = 65664 \<and> bs ! 32832 = 0 \<and>
     bs ! 33089 = 65 \<and> bs ! 33090 = 105 \<and> bs ! 33091 = 225 \<and> bs ! 33092 = 255"
proof -
  from raw_layout obtain bs where
    r: "raw = Inr bs" and l: "length bs = 65664"
    and rows: "\<forall>y<128. bs ! (513 * y) = 0 \<and>
        (\<forall>x<128. \<exists>r g b a. make_pixel (int x) (int y) = Inr (r, g, b, a) \<and>
           bs ! (513 * y + 1 + 4 * x) = word_of_int r \<and>
           bs ! (513 * y + 1 + 4 * x + 1) = word_of_int g \<and>
           bs ! (513 * y + 1 + 4 * x + 2) = word_of_int b \<and>
           bs ! (513 * y + 1 + 4 * x + 3) = word_of_int a)"
    by blast
  have "(64::nat) < 128" by simp
  with rows have f: "bs ! (513 * 64) = 0"
    and "\<exists>r g b a. make_pixel (int 64) (int 64) = Inr (r, g, b, a) \<and>
           bs ! (513 * 64 + 1 + 4 * 64) = word_of_int r \<and>
           bs ! (513 * 64 + 1 + 4 * 64 + 1) = word_of_int g \<and>
           bs ! (513 * 64 + 1 + 4 * 64 + 2) = word_of_int b \<and>
           bs ! (513 * 64 + 1 + 4 * 64 + 3) = word_of_int a"
    by blast+
  moreover have "make_pixel (int 64) (int 64) = Inr (65, 105, 225, 255)"
    by (simp add: make_pixel_int float_limit_def)
  ultimately have "bs ! 33089 = 65 \<and> bs ! 33090 = 105 \<and> bs ! 33091 = 225 \<and> bs ! 33092 = 255"
    by auto
  with r l f show ?thesis by auto
qed




section \<open>Properties of the script run\<close>





lemma outpath_bare_name: "outpath ''create_icon.py'' = ''../media/icon.png''"
  by (simp add: outpath_def dirname_def sep_def)




end
